theory Spec2Isabelle
  imports Main "HOL-Library.Word"
begin

section \<open>The debugger's expression evaluator (nemu/src/monitor/debug/expr.c)\<close>

text \<open>
  A shallow embedding of \<^verbatim>\<open>expr.c\<close>: the rule table, \<^verbatim>\<open>make_token\<close>,
  \<^verbatim>\<open>check_parentheses\<close>, \<^verbatim>\<open>eval\<close>, \<^verbatim>\<open>check_unary\<close> and \<^verbatim>\<open>expr\<close>.
  The file-scope variables \<^verbatim>\<open>tokens\<close> and \<^verbatim>\<open>nr_token\<close> are a state record that is
  passed in and returned. A run that the C program does not survive (\<^verbatim>\<open>panic\<close>,
  \<^verbatim>\<open>assert(0)\<close>, a write past the end of an array) is a value \<open>Inl err\<close>.
  The \<^verbatim>\<open>Log\<close> calls only print and are left out; the \<^verbatim>\<open>printf\<close> of the tokenizer is kept
  as an event of the state. \<^verbatim>\<open>init_regex\<close> compiles the patterns of the table before the
  first use; here the table holds the patterns as syntax trees and matching works on them.
\<close>

subsection \<open>Token kinds and binding levels\<close>

text \<open>A token's \<^verbatim>\<open>type\<close> is a C \<^verbatim>\<open>int\<close>: a character code, or one of the enumerators from 256 on.\<close>

definition TK_NOTYPE :: int where "TK_NOTYPE = 256"
definition TK_EQ :: int where "TK_EQ = 257"
definition TK_NUMBER :: int where "TK_NUMBER = 258"
definition TK_REGISTER :: int where "TK_REGISTER = 259"
definition TK_MINUS :: int where "TK_MINUS = 260"
definition TK_DEREFERENCE :: int where "TK_DEREFERENCE = 261"
definition TK_NOTEQ :: int where "TK_NOTEQ = 262"
definition TK_AND :: int where "TK_AND = 263"
definition TK_OR :: int where "TK_OR = 264"

text \<open>The character constant \<^verbatim>\<open>'c'\<close> as an \<^verbatim>\<open>int\<close>.\<close>

definition CH :: "char \<Rightarrow> int" where
  "CH c = of_char c"

definition OP_LV0 :: nat where "OP_LV0 = 0"
definition OP_LV1 :: nat where "OP_LV1 = 10"
definition OP_LV2_1 :: nat where "OP_LV2_1 = 21"
definition OP_LV2_2 :: nat where "OP_LV2_2 = 22"
definition OP_LV3 :: nat where "OP_LV3 = 30"
definition OP_LV4 :: nat where "OP_LV4 = 40"
definition OP_LV7 :: nat where "OP_LV7 = 70"
definition OP_LV11 :: nat where "OP_LV11 = 110"
definition OP_LV12 :: nat where "OP_LV12 = 120"

definition BAD_EXPR :: int where "BAD_EXPR = 1024"
definition NOT_SURROUND :: int where "NOT_SURROUND = 1025"

subsection \<open>Tokens and the file-scope state\<close>

text \<open>
  \<^verbatim>\<open>Token\<close> is declared in \<^verbatim>\<open>monitor/expr.h\<close>: an \<^verbatim>\<open>int type\<close>, a character array
  \<^verbatim>\<open>str\<close> and the \<^verbatim>\<open>precedence\<close>. The array \<open>str\<close> is the list of its bytes, so its
  capacity is the length of that list. \<open>precedence\<close> only ever holds one of the
  \<^verbatim>\<open>OP_LV\<close> enumerators (or the 0 of static initialisation), so it is a \<open>nat\<close>; it is
  compared as an \<^verbatim>\<open>int\<close>, as in the source.
\<close>

record Token =
  type :: int
  str :: "char list"
  precedence :: nat

text \<open>What \<^verbatim>\<open>make_token\<close> prints when no rule matches: the position and the expression.\<close>

datatype event = No_match nat string

record state =
  tokens :: "Token list"
  nr_token :: nat
  printed :: "event list"

text \<open>The ways a run ends without returning.\<close>

datatype error =
    Panic_division_by_zero
  | Assert_unhandled_op
  | Assert_unhandled_token
  | Tokens_overflow
  | Str_overflow
  | Str_unterminated

definition NUL :: char where
  "NUL = CHR 0x00"

text \<open>
  The state at program start: \<^verbatim>\<open>static Token tokens[32] = {}\<close> and \<^verbatim>\<open>nr_token = 0\<close>.
  The capacity \<open>n\<close> of \<^verbatim>\<open>str\<close> comes from the header and is a parameter.
\<close>

definition zero_token :: "nat \<Rightarrow> Token" where
  "zero_token n = \<lparr>type = 0, str = replicate n NUL, precedence = 0\<rparr>"

definition init_state :: "nat \<Rightarrow> state" where
  "init_state n = \<lparr>tokens = replicate 32 (zero_token n), nr_token = 0, printed = []\<rparr>"

subsection \<open>The rule table and POSIX matching\<close>

text \<open>
  The patterns of the table as syntax trees of POSIX extended regular expressions.
  \<open>Cls cs\<close> is a bracket expression listing the characters \<open>cs\<close>.
\<close>

datatype regex =
    Lit char
  | Cls "char list"
  | Seq regex regex
  | Alt regex regex
  | Plus regex
  | Star regex
  | Eps
  | Nomatch

fun nullable :: "regex \<Rightarrow> bool" where
  "nullable (Lit c) = False"
| "nullable (Cls cs) = False"
| "nullable (Seq r s) = (nullable r \<and> nullable s)"
| "nullable (Alt r s) = (nullable r \<or> nullable s)"
| "nullable (Plus r) = nullable r"
| "nullable (Star r) = True"
| "nullable Eps = True"
| "nullable Nomatch = False"

fun deriv :: "char \<Rightarrow> regex \<Rightarrow> regex" where
  "deriv c (Lit d) = (if c = d then Eps else Nomatch)"
| "deriv c (Cls cs) = (if c \<in> set cs then Eps else Nomatch)"
| "deriv c (Seq r s) =
     (if nullable r then Alt (Seq (deriv c r) s) (deriv c s) else Seq (deriv c r) s)"
| "deriv c (Alt r s) = Alt (deriv c r) (deriv c s)"
| "deriv c (Plus r) = Seq (deriv c r) (Star r)"
| "deriv c (Star r) = Seq (deriv c r) (Star r)"
| "deriv c Eps = Nomatch"
| "deriv c Nomatch = Nomatch"

text \<open>
  \<open>longest_match r s n best\<close> reads \<open>s\<close> with \<open>n\<close> characters already consumed and
  returns the length of the longest prefix that the pattern matches, if there is one.
\<close>

fun longest_match :: "regex \<Rightarrow> string \<Rightarrow> nat \<Rightarrow> nat option \<Rightarrow> nat option" where
  "longest_match r [] n best = (if nullable r then Some n else best)"
| "longest_match r (c # cs) n best =
     longest_match (deriv c r) cs (Suc n) (if nullable r then Some n else best)"

text \<open>
  \<^verbatim>\<open>regexec(&re[i], s, 1, &pmatch, 0) == 0 && pmatch.rm_so == 0\<close>: POSIX reports the
  leftmost match and, among those, the longest, so the test holds exactly when some prefix
  of \<open>s\<close> matches, and \<^verbatim>\<open>pmatch.rm_eo\<close> is then the length of the longest such prefix.
  The result is \<open>Some rm_eo\<close> when the test holds.
\<close>

definition regexec :: "regex \<Rightarrow> string \<Rightarrow> nat option" where
  "regexec r s = longest_match r s 0 None"

definition digits :: "char list" where
  "digits = ''0123456789''"

definition hexdigits :: "char list" where
  "hexdigits = ''0123456789abcdefABCDEF''"

definition alnums :: "char list" where
  "alnums = ''abcdefghijklmnopqrstuvwxyzABCDEFGHIJKLMNOPQRSTUVWXYZ0123456789''"

definition rules :: "(regex \<times> int) list" where
  "rules =
    [(Plus (Lit CHR '' ''), TK_NOTYPE),
     (Lit CHR ''+'', CH CHR ''+''),
     (Lit CHR ''-'', CH CHR ''-''),
     (Lit CHR ''*'', CH CHR ''*''),
     (Lit CHR ''/'', CH CHR ''/''),
     (Lit CHR ''('', CH CHR ''(''),
     (Lit CHR '')'', CH CHR '')''),
     (Seq (Lit CHR ''$'') (Plus (Cls alnums)), TK_REGISTER),
     (Seq (Lit CHR ''0'') (Seq (Cls ''xX'') (Plus (Cls hexdigits))), TK_NUMBER),
     (Alt (Lit CHR ''0'') (Seq (Cls ''123456789'') (Star (Cls digits))), TK_NUMBER),
     (Seq (Lit CHR ''!'') (Lit CHR ''=''), TK_NOTEQ),
     (Seq (Lit CHR ''&'') (Lit CHR ''&''), TK_AND),
     (Seq (Lit CHR ''|'') (Lit CHR ''|''), TK_OR),
     (Seq (Lit CHR ''='') (Lit CHR ''=''), TK_EQ)]"

text \<open>
  The \<^verbatim>\<open>for\<close> loop over the rules: the first rule that matches at the cursor, as its token
  type and the match length; \<open>None\<close> is \<^verbatim>\<open>i == NR_REGEX\<close>.
\<close>

fun try_rules :: "(regex \<times> int) list \<Rightarrow> string \<Rightarrow> (int \<times> nat) option" where
  "try_rules [] s = None"
| "try_rules ((r, ty) # rs) s =
     (case regexec r s of Some len \<Rightarrow> Some (ty, len) | None \<Rightarrow> try_rules rs s)"

subsection \<open>The tokenizer\<close>

text \<open>
  \<^verbatim>\<open>strncpy(dest, src, n)\<close>: \<open>n\<close> bytes are written, those of \<open>src\<close> and then NULs when
  \<open>src\<close> is shorter; no terminator is added. Writing past the array is \<open>None\<close>.
\<close>

definition strncpy :: "char list \<Rightarrow> string \<Rightarrow> nat \<Rightarrow> char list option" where
  "strncpy dest src n =
     (if n \<le> length dest then Some (take n (src @ replicate n NUL) @ drop n dest) else None)"

text \<open>
  The three shapes of the \<^verbatim>\<open>switch\<close> arms in \<^verbatim>\<open>make_token\<close>. The array has 32 entries;
  \<^verbatim>\<open>tokens[nr_token]\<close> with \<^verbatim>\<open>nr_token\<close> beyond them is a write out of bounds.
\<close>

definition put_token :: "state \<Rightarrow> int \<Rightarrow> nat \<Rightarrow> error + state" where
  "put_token st ty lv =
     (if nr_token st < length (tokens st) then
        Inr (st\<lparr>tokens := (tokens st)[nr_token st :=
                   (tokens st ! nr_token st)\<lparr>type := ty, precedence := lv\<rparr>],
                nr_token := nr_token st + 1\<rparr>)
      else Inl Tokens_overflow)"

definition put_token_str :: "state \<Rightarrow> int \<Rightarrow> string \<Rightarrow> nat \<Rightarrow> nat \<Rightarrow> error + state" where
  "put_token_str st ty substr_start substr_len lv =
     (if nr_token st < length (tokens st) then
        (case strncpy (str (tokens st ! nr_token st)) substr_start substr_len of
           None \<Rightarrow> Inl Str_overflow
         | Some s \<Rightarrow>
             Inr (st\<lparr>tokens := (tokens st)[nr_token st :=
                        (tokens st ! nr_token st)\<lparr>type := ty, str := s, precedence := lv\<rparr>],
                     nr_token := nr_token st + 1\<rparr>))
      else Inl Tokens_overflow)"

definition record_token :: "state \<Rightarrow> int \<Rightarrow> string \<Rightarrow> nat \<Rightarrow> error + state" where
  "record_token st token_type substr_start substr_len =
     (if token_type = TK_NOTYPE then Inr st
      else if token_type = CH CHR ''+'' \<or> token_type = CH CHR ''-'' then
        put_token st token_type OP_LV4
      else if token_type = CH CHR ''*'' \<or> token_type = CH CHR ''/'' then
        put_token st token_type OP_LV3
      else if token_type = CH CHR ''('' \<or> token_type = CH CHR '')'' then
        put_token st token_type OP_LV1
      else if token_type = TK_NUMBER then
        put_token_str st token_type substr_start substr_len OP_LV0
      else if token_type = TK_REGISTER then
        put_token_str st token_type substr_start substr_len OP_LV0
      else if token_type = TK_EQ \<or> token_type = TK_NOTEQ then
        put_token st token_type OP_LV7
      else if token_type = TK_AND then put_token st token_type OP_LV11
      else if token_type = TK_OR then put_token st token_type OP_LV12
      else Inl Assert_unhandled_token)"

lemma longest_match_ge:
  "longest_match r s n best = Some m \<Longrightarrow> best = Some m \<or> n \<le> m"
  by (induction r s n best rule: longest_match.induct) (auto split: if_splits)

lemma regexec_pos:
  assumes "regexec r s = Some m" and "\<not> nullable r"
  shows "0 < m"
proof (cases s)
  case Nil
  with assms show ?thesis by (simp add: regexec_def)
next
  case (Cons c cs)
  with assms have "longest_match (deriv c r) cs (Suc 0) None = Some m"
    by (simp add: regexec_def)
  from longest_match_ge [OF this] show ?thesis by simp
qed

lemma try_rules_pos:
  "try_rules rs s = Some (ty, m) \<Longrightarrow> list_all (\<lambda>(r, t). \<not> nullable r) rs \<Longrightarrow> 0 < m"
  by (induction rs s rule: try_rules.induct) (auto split: option.splits dest: regexec_pos)

lemma rules_not_nullable: "list_all (\<lambda>(r, t). \<not> nullable r) rules"
  by (simp add: rules_def)

lemma try_rules_rules_pos: "try_rules rules s = Some (ty, m) \<Longrightarrow> 0 < m"
  using try_rules_pos rules_not_nullable by blast

text \<open>
  The \<^verbatim>\<open>while\<close> loop of \<^verbatim>\<open>make_token\<close>. The string \<open>e\<close> holds the characters before the
  terminator, so \<^verbatim>\<open>e[position] != '\0'\<close> is \<open>position < length e\<close>, and
  \<^verbatim>\<open>e + position\<close> is \<open>drop position e\<close>. The result is the state and the returned \<^verbatim>\<open>bool\<close>.
\<close>

function make_token_loop :: "state \<Rightarrow> nat \<Rightarrow> string \<Rightarrow> error + (state \<times> bool)" where
  "make_token_loop st position e =
     (if position < length e then
        (case try_rules rules (drop position e) of
           None \<Rightarrow> Inr (st\<lparr>printed := printed st @ [No_match position e]\<rparr>, False)
         | Some (token_type, substr_len) \<Rightarrow>
             (case record_token st token_type (drop position e) substr_len of
                Inl err \<Rightarrow> Inl err
              | Inr st' \<Rightarrow> make_token_loop st' (position + substr_len) e))
      else Inr (st, True))"
  by pat_completeness auto
termination
  by (relation "measure (\<lambda>(st, position, e). length e - position)")
     (auto dest: try_rules_rules_pos)

declare make_token_loop.simps [simp del]

definition make_token :: "state \<Rightarrow> string \<Rightarrow> error + (state \<times> bool)" where
  "make_token st e = make_token_loop (st\<lparr>nr_token := 0\<rparr>) 0 e"

subsection \<open>The balance checker\<close>

text \<open>\<^verbatim>\<open>tokens[i]\<close> for an \<^verbatim>\<open>int\<close> index.\<close>

definition tok :: "state \<Rightarrow> int \<Rightarrow> Token" where
  "tok st i = tokens st ! nat i"

text \<open>The parenthesis counter after the token at \<open>i\<close> has been read.\<close>

definition count_paren :: "state \<Rightarrow> int \<Rightarrow> int \<Rightarrow> int" where
  "count_paren st i cnt =
     (if type (tok st i) = CH CHR ''('' then cnt + 1
      else if type (tok st i) = CH CHR '')'' then cnt - 1
      else cnt)"

text \<open>
  The \<^verbatim>\<open>for\<close> loop of \<^verbatim>\<open>check_parentheses\<close>: \<open>None\<close> when the counter goes negative
  (the early \<^verbatim>\<open>return false\<close>), otherwise the counter at the end of the range.
\<close>

function check_parentheses_loop :: "state \<Rightarrow> int \<Rightarrow> int \<Rightarrow> int \<Rightarrow> int option" where
  "check_parentheses_loop st i q match_cnt =
     (if i \<le> q then
        (if count_paren st i match_cnt < 0 then None
         else check_parentheses_loop st (i + 1) q (count_paren st i match_cnt))
      else Some match_cnt)"
  by pat_completeness auto
termination
  by (relation "measure (\<lambda>(st, i, q, match_cnt). nat (q + 1 - i))") auto

declare check_parentheses_loop.simps [simp del]

text \<open>
  The result is the returned \<^verbatim>\<open>bool\<close> and what was written to \<^verbatim>\<open>*error\<close>
  (\<open>None\<close>: nothing was written).
\<close>

definition check_parentheses :: "state \<Rightarrow> int \<Rightarrow> int \<Rightarrow> bool \<times> int option" where
  "check_parentheses st p q =
     (if p \<ge> q then (False, Some BAD_EXPR)
      else
        (case check_parentheses_loop st p q 0 of
           None \<Rightarrow> (False, Some BAD_EXPR)
         | Some match_cnt \<Rightarrow>
             if match_cnt \<noteq> 0 then (False, Some BAD_EXPR)
             else if type (tok st p) = CH CHR ''('' \<and> type (tok st q) = CH CHR '')''
             then (True, None)
             else (False, Some NOT_SURROUND)))"

subsection \<open>The evaluator\<close>

text \<open>
  The scan for the operator to split at, the second \<^verbatim>\<open>for\<close> loop of \<^verbatim>\<open>eval\<close>, with its
  locals \<^verbatim>\<open>cur\<close>, \<^verbatim>\<open>max_precedence\<close> and \<^verbatim>\<open>op\<close>.
\<close>

function find_op_loop :: "state \<Rightarrow> int \<Rightarrow> int \<Rightarrow> int \<Rightarrow> int \<Rightarrow> int \<Rightarrow> int" where
  "find_op_loop st i q cur max_precedence op =
     (if i \<le> q then
        (if count_paren st i cur = 0 \<and> int (precedence (tok st i)) \<ge> max_precedence
         then find_op_loop st (i + 1) q (count_paren st i cur) (int (precedence (tok st i))) i
         else find_op_loop st (i + 1) q (count_paren st i cur) max_precedence op)
      else op)"
  by pat_completeness auto
termination
  by (relation "measure (\<lambda>(st, i, q, cur, max_precedence, op). nat (q + 1 - i))") auto

declare find_op_loop.simps [simp del]

definition find_op :: "state \<Rightarrow> int \<Rightarrow> int \<Rightarrow> int" where
  "find_op st p q = find_op_loop st p q 0 (- 1) 0"

type_synonym u32 = "32 word"

text \<open>
  What the evaluator takes from outside this file: the register lookup
  \<^verbatim>\<open>isa_reg_str2val(name, success)\<close>, given the name and the flag behind \<^verbatim>\<open>success\<close> and
  returning the value and the flag afterwards; the memory read \<^verbatim>\<open>vaddr_read(addr, len)\<close>;
  and \<open>uninit_val p\<close>, the content of the local \<^verbatim>\<open>val\<close> of the call \<^verbatim>\<open>eval(p, p, ...)\<close>
  when nothing was stored in it before it is returned.
\<close>

record env =
  isa_reg_str2val :: "string \<Rightarrow> bool \<Rightarrow> u32 \<times> bool"
  vaddr_read :: "u32 \<Rightarrow> int \<Rightarrow> u32"
  uninit_val :: "int \<Rightarrow> u32"

text \<open>The C string in a character array: the bytes before the first NUL, if there is one.\<close>

definition c_str :: "char list \<Rightarrow> string option" where
  "c_str buf = (if NUL \<in> set buf then Some (takeWhile (\<lambda>c. c \<noteq> NUL) buf) else None)"

text \<open>
  \<^verbatim>\<open>sscanf(s, "%d", &val)\<close> and \<^verbatim>\<open>sscanf(s, "%x", &val)\<close> of the GNU C library with a
  \<^verbatim>\<open>long\<close> of 64 bits, as the returned count and the value stored, if one is. White space
  is skipped; when the input ends there the count is \<open>-1\<close> (\<^verbatim>\<open>EOF\<close>). An optional sign is
  read, then the digits of the number: for \<^verbatim>\<open>%x\<close> a leading \<^verbatim>\<open>0\<close> followed by \<^verbatim>\<open>x\<close> or \<^verbatim>\<open>X\<close>
  is read as the digit \<^verbatim>\<open>0\<close> with the \<^verbatim>\<open>x\<close> dropped, then comes the longest run of digits
  of the base. With no digit the count is 0 and nothing is stored. Otherwise the digits
  are converted by \<^verbatim>\<open>strtol\<close> (for \<^verbatim>\<open>%d\<close>) or \<^verbatim>\<open>strtoul\<close> (for \<^verbatim>\<open>%x\<close>), which give the
  nearest bound of their type for a number out of range, and the low 32 bits of the
  result are stored.
\<close>

definition isspace :: "char \<Rightarrow> bool" where
  "isspace c = (c \<in> set [CHR '' '', CHR 0x09, CHR 0x0A, CHR 0x0B, CHR 0x0C, CHR 0x0D])"

definition digit_val :: "char \<Rightarrow> nat" where
  "digit_val c =
     (if c \<in> set digits then of_char c - 48
      else if c \<in> set ''abcdef'' then of_char c - 87
      else of_char c - 55)"

definition str_to_int :: "int \<Rightarrow> string \<Rightarrow> int" where
  "str_to_int base ds = foldl (\<lambda>n c. n * base + int (digit_val c)) 0 ds"

definition LONG_MAX :: int where
  "LONG_MAX = 9223372036854775807"

definition ULONG_MAX :: int where
  "ULONG_MAX = 18446744073709551615"

definition strtol :: "bool \<Rightarrow> int \<Rightarrow> string \<Rightarrow> int" where
  "strtol neg base ds =
     (if neg then
        (if str_to_int base ds > LONG_MAX + 1 then - LONG_MAX - 1 else - str_to_int base ds)
      else
        (if str_to_int base ds > LONG_MAX then LONG_MAX else str_to_int base ds))"

definition strtoul :: "bool \<Rightarrow> int \<Rightarrow> string \<Rightarrow> int" where
  "strtoul neg base ds =
     (if str_to_int base ds > ULONG_MAX then ULONG_MAX
      else if neg then (- str_to_int base ds) mod (ULONG_MAX + 1)
      else str_to_int base ds)"

definition signed :: "string \<Rightarrow> bool" where
  "signed s = (s \<noteq> [] \<and> (hd s = CHR ''-'' \<or> hd s = CHR ''+''))"

definition negative :: "string \<Rightarrow> bool" where
  "negative s = (s \<noteq> [] \<and> hd s = CHR ''-'')"

definition sscanf_d :: "string \<Rightarrow> int \<times> u32 option" where
  "sscanf_d s =
     (let s1 = dropWhile isspace s;
          s2 = (if signed s1 then tl s1 else s1);
          ds = takeWhile (\<lambda>c. c \<in> set digits) s2
      in if s1 = [] then (- 1, None)
         else if ds = [] then (0, None)
         else (1, Some (word_of_int (strtol (negative s1) 10 ds))))"

definition has_0x :: "string \<Rightarrow> bool" where
  "has_0x s = (take 2 s = ''0x'' \<or> take 2 s = ''0X'')"

definition sscanf_x :: "string \<Rightarrow> int \<times> u32 option" where
  "sscanf_x s =
     (let s1 = dropWhile isspace s;
          s2 = (if signed s1 then tl s1 else s1);
          ds = (if has_0x s2 then CHR ''0'' # takeWhile (\<lambda>c. c \<in> set hexdigits) (drop 2 s2)
                else takeWhile (\<lambda>c. c \<in> set hexdigits) s2)
      in if s1 = [] then (- 1, None)
         else if ds = [] then (0, None)
         else (1, Some (word_of_int (strtoul (negative s1) 16 ds))))"

text \<open>
  The singleton case for a \<^verbatim>\<open>TK_NUMBER\<close> token with text \<open>t\<close>. \<open>scan_number\<close> is the
  \<^verbatim>\<open>sscanf\<close> call that \<^verbatim>\<open>is_hex\<close> selects, as the count \<^verbatim>\<open>ret\<close> and what was stored in
  \<^verbatim>\<open>val\<close>; \<open>eval_number\<close> is the value returned and the flag afterwards.
\<close>

definition scan_number :: "string \<Rightarrow> int \<times> u32 option" where
  "scan_number t =
     (let is_hex = (length t > 2 \<and> (t ! 1 = CHR ''x'' \<or> t ! 1 = CHR ''X''))
      in if is_hex then sscanf_x t else sscanf_d t)"

definition eval_number :: "env \<Rightarrow> int \<Rightarrow> string \<Rightarrow> bool \<Rightarrow> u32 \<times> bool" where
  "eval_number E p t success =
     (let r = scan_number t
      in ((case snd r of Some v \<Rightarrow> v | None \<Rightarrow> uninit_val E p),
          (if fst r = 0 then False else success)))"

text \<open>A value used as a C truth value.\<close>

definition truth :: "u32 \<Rightarrow> bool" where
  "truth v = (v \<noteq> 0)"

text \<open>The \<^verbatim>\<open>switch\<close> over the operator's type.\<close>

definition combine :: "env \<Rightarrow> int \<Rightarrow> u32 \<Rightarrow> u32 \<Rightarrow> error + u32" where
  "combine E ty val1 val2 =
     (if ty = CH CHR ''+'' then Inr (val1 + val2)
      else if ty = CH CHR ''-'' then Inr (val1 - val2)
      else if ty = CH CHR ''*'' then Inr (val1 * val2)
      else if ty = CH CHR ''/'' then
        (if val2 = 0 then Inl Panic_division_by_zero else Inr (val1 div val2))
      else if ty = TK_DEREFERENCE then Inr (vaddr_read E val2 4)
      else if ty = TK_MINUS then Inr (- val2)
      else if ty = TK_EQ then Inr (if val1 = val2 then 1 else 0)
      else if ty = TK_NOTEQ then Inr (if val1 \<noteq> val2 then 1 else 0)
      else if ty = TK_AND then Inr (if truth val1 \<and> truth val2 then 1 else 0)
      else if ty = TK_OR then Inr (if truth val1 \<or> truth val2 then 1 else 0)
      else Inl Assert_unhandled_op)"

text \<open>
  The scan picks a position of the range whenever the balance check has passed: the two
  loops count the parentheses alike, and the last token of a balanced range is at depth 0.
\<close>

lemma find_op_loop_keep:
  "lo \<le> op \<Longrightarrow> op \<le> q \<Longrightarrow> lo \<le> i \<Longrightarrow>
   lo \<le> find_op_loop st i q cur mx op \<and> find_op_loop st i q cur mx op \<le> q"
proof (induction st i q cur mx op rule: find_op_loop.induct)
  case (1 st i q cur mx op)
  show ?case
  proof (cases "i \<le> q")
    case False
    with "1.prems" show ?thesis by (subst (1 2) find_op_loop.simps) simp
  next
    case True
    show ?thesis
    proof (cases "count_paren st i cur = 0 \<and> int (precedence (tok st i)) \<ge> mx")
      case sel: True
      from "1.IH"(1) [OF True sel] "1.prems" True
      have "lo \<le> find_op_loop st (i + 1) q (count_paren st i cur) (int (precedence (tok st i))) i
          \<and> find_op_loop st (i + 1) q (count_paren st i cur) (int (precedence (tok st i))) i \<le> q"
        by simp
      with True sel show ?thesis by (subst (1 2) find_op_loop.simps) simp
    next
      case nsel: False
      from "1.IH"(2) [OF True nsel] "1.prems" True
      have "lo \<le> find_op_loop st (i + 1) q (count_paren st i cur) mx op
          \<and> find_op_loop st (i + 1) q (count_paren st i cur) mx op \<le> q"
        by simp
      with True nsel show ?thesis by (subst (1 2) find_op_loop.simps) auto
    qed
  qed
qed

lemma find_op_loop_balanced:
  "check_parentheses_loop st i q cur = Some 0 \<Longrightarrow> i \<le> q \<Longrightarrow> mx \<le> 0 \<Longrightarrow>
   i \<le> find_op_loop st i q cur mx op \<and> find_op_loop st i q cur mx op \<le> q"
proof (induction st i q cur mx op rule: find_op_loop.induct)
  case (1 st i q cur mx op)
  from "1.prems"(1,2) have nonneg: "\<not> count_paren st i cur < 0"
    and rest: "check_parentheses_loop st (i + 1) q (count_paren st i cur) = Some 0"
    by (subst (asm) check_parentheses_loop.simps, simp split: if_splits)+
  show ?case
  proof (cases "count_paren st i cur = 0")
    case True
    with "1.prems"(3) have sel: "count_paren st i cur = 0 \<and> int (precedence (tok st i)) \<ge> mx"
      by simp
    have "i \<le> find_op_loop st (i + 1) q (count_paren st i cur) (int (precedence (tok st i))) i
        \<and> find_op_loop st (i + 1) q (count_paren st i cur) (int (precedence (tok st i))) i \<le> q"
      using "1.prems"(2) by (intro find_op_loop_keep) simp_all
    with "1.prems"(2) sel show ?thesis by (subst (1 2) find_op_loop.simps) simp
  next
    case False
    then have nsel: "\<not> (count_paren st i cur = 0 \<and> int (precedence (tok st i)) \<ge> mx)"
      by simp
    from rest False have "i + 1 \<le> q"
      by (subst (asm) check_parentheses_loop.simps) (simp split: if_splits)
    from "1.IH"(2) [OF "1.prems"(2) nsel rest this "1.prems"(3)]
    have "i + 1 \<le> find_op_loop st (i + 1) q (count_paren st i cur) mx op
        \<and> find_op_loop st (i + 1) q (count_paren st i cur) mx op \<le> q" .
    with "1.prems"(2) nsel show ?thesis by (subst (1 2) find_op_loop.simps) auto
  qed
qed

lemma find_op_range:
  assumes "\<not> fst (check_parentheses st p q)"
    and "snd (check_parentheses st p q) \<noteq> Some BAD_EXPR"
  shows "p \<le> find_op st p q \<and> find_op st p q \<le> q"
proof -
  from assms have "p < q" and "check_parentheses_loop st p q 0 = Some 0"
    by (auto simp: check_parentheses_def split: if_splits option.splits)
  then show ?thesis
    unfolding find_op_def by (intro find_op_loop_balanced) simp_all
qed

text \<open>
  \<^verbatim>\<open>eval(p, q, success)\<close>. The flag behind \<^verbatim>\<open>success\<close> is passed in and returned with
  the value. \<^verbatim>\<open>tokens[p].str + 1\<close> is the array from its second byte on.
\<close>

function eval :: "env \<Rightarrow> state \<Rightarrow> int \<Rightarrow> int \<Rightarrow> bool \<Rightarrow> error + (u32 \<times> bool)" where
  "eval E st p q success =
     (if p > q then Inr (0, False)
      else if p = q then
        (if type (tok st p) = TK_NUMBER then
           (case c_str (str (tok st p)) of
              None \<Rightarrow> Inl Str_unterminated
            | Some t \<Rightarrow> Inr (eval_number E p t success))
         else if type (tok st p) = TK_REGISTER then
           (case c_str (drop 1 (str (tok st p))) of
              None \<Rightarrow> Inl Str_unterminated
            | Some name \<Rightarrow> Inr (isa_reg_str2val E name success))
         else Inr (uninit_val E p, success))
      else if fst (check_parentheses st p q) then eval E st (p + 1) (q - 1) success
      else if snd (check_parentheses st p q) = Some BAD_EXPR then Inr (0, False)
      else
        (case (if type (tok st (find_op st p q)) \<noteq> TK_DEREFERENCE
                  \<and> type (tok st (find_op st p q)) \<noteq> TK_MINUS
               then eval E st p (find_op st p q - 1) success
               else Inr (0, success)) of
           Inl err \<Rightarrow> Inl err
         | Inr (val1, success1) \<Rightarrow>
             (case eval E st (find_op st p q + 1) q success1 of
                Inl err \<Rightarrow> Inl err
              | Inr (val2, success2) \<Rightarrow>
                  (case combine E (type (tok st (find_op st p q))) val1 val2 of
                     Inl err \<Rightarrow> Inl err
                   | Inr v \<Rightarrow> Inr (v, success2)))))"
  by pat_completeness auto
termination
proof (relation "measure (\<lambda>(E, st, p, q, success). nat (q - p + 1))", goal_cases)
  case 1
  show ?case by simp
next
  case (2 E st p q success)
  then show ?case by simp
next
  case (3 E st p q success)
  with find_op_range [of st p q] show ?case by simp
next
  case (4 E st p q success x2 x y)
  with find_op_range [of st p q] show ?case by simp
qed

declare eval.simps [simp del]

subsection \<open>Unary operators and the entry point\<close>

definition check_unary :: "int \<Rightarrow> bool" where
  "check_unary token_type =
     (token_type = CH CHR ''(''
      \<or> token_type = CH CHR ''+''
      \<or> token_type = CH CHR ''-''
      \<or> token_type = CH CHR ''*''
      \<or> token_type = CH CHR ''/''
      \<or> token_type = TK_MINUS
      \<or> token_type = TK_DEREFERENCE)"

text \<open>
  One \<^verbatim>\<open>if\<close> of the loop body in \<^verbatim>\<open>expr\<close>: the token at \<open>i\<close> of type \<open>from\<close> becomes
  \<open>to\<close> with binding level \<open>lv\<close> when it stands first or after a token that
  \<^verbatim>\<open>check_unary\<close> accepts.
\<close>

definition reclassify :: "state \<Rightarrow> nat \<Rightarrow> int \<Rightarrow> int \<Rightarrow> nat \<Rightarrow> state" where
  "reclassify st i from to lv =
     (if type (tokens st ! i) = from \<and> (i = 0 \<or> check_unary (type (tokens st ! (i - 1))))
      then st\<lparr>tokens := (tokens st)[i := (tokens st ! i)\<lparr>type := to, precedence := lv\<rparr>]\<rparr>
      else st)"

definition recognize_step :: "state \<Rightarrow> nat \<Rightarrow> state" where
  "recognize_step st i =
     reclassify (reclassify st i (CH CHR ''*'') TK_DEREFERENCE OP_LV2_2) i
       (CH CHR ''-'') TK_MINUS OP_LV2_1"

lemma nr_token_recognize_step: "nr_token (recognize_step st i) = nr_token st"
  by (simp add: recognize_step_def reclassify_def)

function recognize_unary :: "state \<Rightarrow> nat \<Rightarrow> state" where
  "recognize_unary st i =
     (if i < nr_token st then recognize_unary (recognize_step st i) (i + 1) else st)"
  by pat_completeness auto
termination
  by (relation "measure (\<lambda>(st, i). nr_token st - i)")
     (auto simp: nr_token_recognize_step)

declare recognize_unary.simps [simp del]

text \<open>
  \<^verbatim>\<open>expr(e, success)\<close>: the state afterwards, the value returned and the flag behind
  \<^verbatim>\<open>success\<close>.
\<close>

definition expr :: "env \<Rightarrow> state \<Rightarrow> string \<Rightarrow> bool \<Rightarrow> error + (state \<times> u32 \<times> bool)" where
  "expr E st e success =
     (case make_token st e of
        Inl err \<Rightarrow> Inl err
      | Inr (st1, ok) \<Rightarrow>
          if \<not> ok then Inr (st1, 0, False)
          else
            (case eval E (recognize_unary st1 0) 0 (int (nr_token (recognize_unary st1 0)) - 1)
                    success of
               Inl err \<Rightarrow> Inl err
             | Inr (v, success') \<Rightarrow> Inr (recognize_unary st1 0, v, success')))"

subsection \<open>Notions of the specification\<close>

text \<open>
  The collaborators of the specification's examples: the register \<open>pc\<close> resolves to
  \<open>0x1000\<close> and reports success, any other name reports failure; every memory read
  gives \<open>0xAB\<close>.
\<close>

definition stub_env :: env where
  "stub_env =
     \<lparr>isa_reg_str2val = (\<lambda>name success. if name = ''pc'' then (0x1000, True) else (0, False)),
      vaddr_read = (\<lambda>addr len. 0xAB),
      uninit_val = (\<lambda>p. 0)\<rparr>"

text \<open>
  The token state that \<^verbatim>\<open>make_token\<close> leaves for an expression when it is the first
  call of the program and the text arrays hold 32 bytes.
\<close>

definition lexed :: "string \<Rightarrow> state" where
  "lexed e = (case make_token (init_state 32) e of Inl err \<Rightarrow> init_state 32 | Inr (st, ok) \<Rightarrow> st)"

text \<open>
  The parenthesis depth after the token at \<open>i\<close> in the range that starts at \<open>p\<close>: the
  opening parentheses among the tokens \<open>p..i\<close> less the closing ones. The parenthesis that
  closes a group at the top level is at depth 0 and the one that opens it at depth 1.
\<close>

definition paren_depth :: "state \<Rightarrow> int \<Rightarrow> int \<Rightarrow> int" where
  "paren_depth st p i =
     int (length (filter (\<lambda>j. type (tok st j) = CH CHR ''('') [p..i]))
       - int (length (filter (\<lambda>j. type (tok st j) = CH CHR '')'') [p..i]))"

text \<open>
  The dominant operator of the range \<open>p..q\<close>: a position at depth 0 whose binding level
  no position at depth 0 exceeds and no later one reaches.
\<close>

definition dominant :: "state \<Rightarrow> int \<Rightarrow> int \<Rightarrow> int \<Rightarrow> bool" where
  "dominant st p q op =
     (p \<le> op \<and> op \<le> q \<and> paren_depth st p op = 0 \<and>
      list_all
        (\<lambda>j. if paren_depth st p j = 0
             then precedence (tok st j) \<le> precedence (tok st op)
                  \<and> (j \<le> op \<or> precedence (tok st j) < precedence (tok st op))
             else True)
        [p..q])"

text \<open>
  The unary context of the token at \<open>i\<close> in a token sequence, and the token the
  specification's disambiguation pass leaves at \<open>i\<close>.
\<close>

definition unary_context :: "Token list \<Rightarrow> nat \<Rightarrow> bool" where
  "unary_context ts i =
     (i = 0 \<or> type (ts ! (i - 1)) \<in>
        {CH CHR ''('', CH CHR ''+'', CH CHR ''-'', CH CHR ''*'', CH CHR ''/'',
         TK_MINUS, TK_DEREFERENCE})"

definition disambiguated :: "Token list \<Rightarrow> nat \<Rightarrow> Token" where
  "disambiguated ts i =
     (if type (ts ! i) = CH CHR ''*'' \<and> unary_context ts i
      then (ts ! i)\<lparr>type := TK_DEREFERENCE, precedence := 22\<rparr>
      else if type (ts ! i) = CH CHR ''-'' \<and> unary_context ts i
      then (ts ! i)\<lparr>type := TK_MINUS, precedence := 21\<rparr>
      else ts ! i)"




text \<open>
  What the number rules leave in the array: the text of every \<^verbatim>\<open>TK_NUMBER\<close> token starts
  with a decimal digit.
\<close>

definition number_texts :: "state \<Rightarrow> bool" where
  "number_texts st =
     list_all (\<lambda>t. if type t = TK_NUMBER then str t \<noteq> [] \<and> hd (str t) \<in> set digits else True)
       (tokens st)"





section \<open>Properties\<close>

subsection \<open>Token types, and the cases of the evaluator\<close>

lemma CH_eq_iff [simp]: "CH c = CH d \<longleftrightarrow> c = d"
  by (simp add: CH_def)

lemma CH_less_256: "CH c < 256"
proof -
  have "(of_char c :: int) mod 256 = of_char c"
    by (rule of_char_mod_256)
  moreover have "(of_char c :: int) mod 256 < 256"
    by (rule pos_mod_bound) simp
  ultimately show ?thesis by (simp add: CH_def)
qed

lemma CH_neq_TK [simp]:
  "CH c \<noteq> TK_NOTYPE" "CH c \<noteq> TK_EQ" "CH c \<noteq> TK_NUMBER" "CH c \<noteq> TK_REGISTER"
  "CH c \<noteq> TK_MINUS" "CH c \<noteq> TK_DEREFERENCE" "CH c \<noteq> TK_NOTEQ" "CH c \<noteq> TK_AND"
  "CH c \<noteq> TK_OR"
  "TK_NOTYPE \<noteq> CH c" "TK_EQ \<noteq> CH c" "TK_NUMBER \<noteq> CH c" "TK_REGISTER \<noteq> CH c"
  "TK_MINUS \<noteq> CH c" "TK_DEREFERENCE \<noteq> CH c" "TK_NOTEQ \<noteq> CH c" "TK_AND \<noteq> CH c"
  "TK_OR \<noteq> CH c"
  using CH_less_256 [of c]
  by (simp_all add: TK_NOTYPE_def TK_EQ_def TK_NUMBER_def TK_REGISTER_def TK_MINUS_def
      TK_DEREFERENCE_def TK_NOTEQ_def TK_AND_def TK_OR_def)

lemma TK_distinct [simp]:
  "TK_MINUS \<noteq> TK_DEREFERENCE" "TK_DEREFERENCE \<noteq> TK_MINUS"
  "TK_NUMBER \<noteq> TK_REGISTER" "TK_REGISTER \<noteq> TK_NUMBER"
  "TK_NUMBER \<noteq> TK_MINUS" "TK_NUMBER \<noteq> TK_DEREFERENCE"
  "TK_MINUS \<noteq> TK_NUMBER" "TK_DEREFERENCE \<noteq> TK_NUMBER"
  "TK_REGISTER \<noteq> TK_MINUS" "TK_REGISTER \<noteq> TK_DEREFERENCE"
  "TK_MINUS \<noteq> TK_REGISTER" "TK_DEREFERENCE \<noteq> TK_REGISTER"
  by (simp_all add: TK_NUMBER_def TK_REGISTER_def TK_MINUS_def TK_DEREFERENCE_def)





lemma eval_operator:
  "p < q \<Longrightarrow> \<not> fst (check_parentheses st p q) \<Longrightarrow>
   snd (check_parentheses st p q) \<noteq> Some BAD_EXPR \<Longrightarrow>
   eval E st p q success =
     (case (if type (tok st (find_op st p q)) \<noteq> TK_DEREFERENCE
               \<and> type (tok st (find_op st p q)) \<noteq> TK_MINUS
            then eval E st p (find_op st p q - 1) success
            else Inr (0, success)) of
        Inl err \<Rightarrow> Inl err
      | Inr (val1, success1) \<Rightarrow>
          (case eval E st (find_op st p q + 1) q success1 of
             Inl err \<Rightarrow> Inl err
           | Inr (val2, success2) \<Rightarrow>
               (case combine E (type (tok st (find_op st p q))) val1 val2 of
                  Inl err \<Rightarrow> Inl err
                | Inr v \<Rightarrow> Inr (v, success2))))"
  by (subst eval.simps) simp


subsection \<open>The balance check\<close>

text \<open>
  C1. The balance check is to report a range as fully wrapped only when the opening
  parenthesis at its start is closed by its last token. On the tokens of \<^verbatim>\<open>(1)+(2)\<close>
  the check answers true for the whole range \<open>0..6\<close>, although the first parenthesis
  is closed at index 2 (the range \<open>0..2\<close> is itself balanced and wrapped); the
  evaluator then strips the two outer tokens and reports failure for the expression.
\<close>

theorem check_parentheses_two_groups:
  "(case expr stub_env (init_state 32) ''(1)+(2)'' True of
      Inl err \<Rightarrow> False
    | Inr (st, v, success) \<Rightarrow>
        nr_token st = 7 \<and>
        check_parentheses st 0 6 = (True, None) \<and>
        check_parentheses st 0 2 = (True, None) \<and>
        paren_depth st 0 0 = 1 \<and> paren_depth st 0 1 = 1 \<and> paren_depth st 0 2 = 0 \<and>
        v = 0 \<and> success = False)"
  by code_simp

subsection \<open>The operator the evaluator splits at\<close>

text \<open>
  C2. The switch over the chosen operator's type is to be reached only with an operator.
  The tokenizer accepts \<^verbatim>\<open>1 2\<close>; the scan then picks the number at index 1, and the
  run ends in the \<^verbatim>\<open>assert(0)\<close> of the default arm.
\<close>

theorem expr_reaches_unhandled_op:
  "make_token (init_state 32) ''1 2'' \<noteq> Inl Assert_unhandled_token \<and>
   map_sum id snd (make_token (init_state 32) ''1 2'') = Inr True \<and>
   expr stub_env (init_state 32) ''1 2'' True = Inl Assert_unhandled_op"
  by code_simp

lemma paren_depth_before: "i < p \<Longrightarrow> paren_depth st p i = 0"
  by (simp add: paren_depth_def)

lemma paren_depth_at: "p \<le> i \<Longrightarrow> paren_depth st p i = count_paren st i (paren_depth st p (i - 1))"
  by (simp add: paren_depth_def count_paren_def upto_rec2)

lemma dominant_iff:
  "dominant st p q op \<longleftrightarrow>
     p \<le> op \<and> op \<le> q \<and> paren_depth st p op = 0 \<and>
     (\<forall>j\<in>{p..q}. paren_depth st p j = 0 \<longrightarrow>
        precedence (tok st j) \<le> precedence (tok st op) \<and>
        (op < j \<longrightarrow> precedence (tok st j) < precedence (tok st op)))"
  by (auto simp: dominant_def list_all_iff)

lemma check_parentheses_loop_depth:
  "check_parentheses_loop st i q cur = Some c \<Longrightarrow> p \<le> i \<Longrightarrow> i \<le> q + 1 \<Longrightarrow>
   cur = paren_depth st p (i - 1) \<Longrightarrow> c = paren_depth st p q"
proof (induction st i q cur rule: check_parentheses_loop.induct)
  case (1 st i q cur)
  show ?case
  proof (cases "i \<le> q")
    case True
    with "1.prems"(1) have nonneg: "\<not> count_paren st i cur < 0"
      and rest: "check_parentheses_loop st (i + 1) q (count_paren st i cur) = Some c"
      by (subst (asm) check_parentheses_loop.simps, simp split: if_splits)+
    from "1.prems"(2,4) have "count_paren st i cur = paren_depth st p (i + 1 - 1)"
      by (simp add: paren_depth_at)
    with "1.IH" [OF True nonneg rest] "1.prems"(2) True show ?thesis by simp
  next
    case False
    with "1.prems"(3) have "i = q + 1" by simp
    moreover from False "1.prems"(1) have "c = cur"
      by (subst (asm) check_parentheses_loop.simps) simp
    ultimately show ?thesis using "1.prems"(4) by simp
  qed
qed

lemma find_op_loop_dominant:
  "p \<le> i \<Longrightarrow> i \<le> q + 1 \<Longrightarrow> cur = paren_depth st p (i - 1) \<Longrightarrow>
   (mx = - 1 \<and> (\<forall>j\<in>{p..i - 1}. paren_depth st p j \<noteq> 0))
     \<or> (dominant st p (i - 1) op \<and> mx = int (precedence (tok st op))) \<Longrightarrow>
   \<exists>j\<in>{p..q}. paren_depth st p j = 0 \<Longrightarrow>
   dominant st p q (find_op_loop st i q cur mx op)"
proof (induction st i q cur mx op rule: find_op_loop.induct)
  case (1 st i q cur mx op)
  show ?case
  proof (cases "i \<le> q")
    case False
    with "1.prems"(2) have iq: "i - 1 = q" by simp
    from False have "find_op_loop st i q cur mx op = op"
      by (subst find_op_loop.simps) simp
    with "1.prems"(4,5) iq show ?thesis by auto
  next
    case True
    from "1.prems"(1,3) have cur': "count_paren st i cur = paren_depth st p i"
      by (simp add: paren_depth_at)
    have split: "\<And>P. (\<forall>j\<in>{p..i}. P j) \<longleftrightarrow> (\<forall>j\<in>{p..i - 1}. P j) \<and> P i"
    proof -
      fix P :: "int \<Rightarrow> bool"
      from "1.prems"(1) have "{p..i} = insert i {p..i - 1}" by auto
      then show "(\<forall>j\<in>{p..i}. P j) \<longleftrightarrow> (\<forall>j\<in>{p..i - 1}. P j) \<and> P i" by auto
    qed
    show ?thesis
    proof (cases "count_paren st i cur = 0 \<and> int (precedence (tok st i)) \<ge> mx")
      case sel: True
      have "dominant st p (i + 1 - 1) i"
        using "1.prems"(1,4) sel cur'
        by (auto simp: dominant_iff split)
      then have "dominant st p q
          (find_op_loop st (i + 1) q (count_paren st i cur) (int (precedence (tok st i))) i)"
        using "1.prems"(1,5) True cur'
        by (intro "1.IH"(1) [OF True sel]) simp_all
      with True sel show ?thesis by (subst find_op_loop.simps) simp
    next
      case nsel: False
      have "(mx = - 1 \<and> (\<forall>j\<in>{p..i + 1 - 1}. paren_depth st p j \<noteq> 0))
          \<or> (dominant st p (i + 1 - 1) op \<and> mx = int (precedence (tok st op)))"
        using "1.prems"(1,4) nsel cur'
        by (auto simp: dominant_iff split)
      then have "dominant st p q (find_op_loop st (i + 1) q (count_paren st i cur) mx op)"
        using "1.prems"(1,5) True cur'
        by (intro "1.IH"(2) [OF True nsel]) simp_all
      with True nsel show ?thesis by (subst find_op_loop.simps) auto
    qed
  qed
qed

lemma find_op_dominant:
  assumes "check_parentheses st p q = (False, Some NOT_SURROUND)"
  shows "dominant st p q (find_op st p q)"
proof -
  from assms have pq: "p < q" and loop: "check_parentheses_loop st p q 0 = Some 0"
    by (auto simp: check_parentheses_def BAD_EXPR_def NOT_SURROUND_def
        split: if_splits option.splits)
  have "0 = paren_depth st p q"
    using loop pq by (intro check_parentheses_loop_depth [of st p q 0]) (simp_all add: paren_depth_before)
  with pq have "\<exists>j\<in>{p..q}. paren_depth st p j = 0" by auto
  then show ?thesis
    unfolding find_op_def using pq
    by (intro find_op_loop_dominant) (simp_all add: paren_depth_before)
qed

lemma eval_splits_at_dominant:
  assumes "check_parentheses st p q = (False, Some NOT_SURROUND)"
  shows "dominant st p q (find_op st p q)"
    and "eval E st p q success =
        (case (if type (tok st (find_op st p q)) \<noteq> TK_DEREFERENCE
                  \<and> type (tok st (find_op st p q)) \<noteq> TK_MINUS
               then eval E st p (find_op st p q - 1) success
               else Inr (0, success)) of
           Inl err \<Rightarrow> Inl err
         | Inr (val1, success1) \<Rightarrow>
             (case eval E st (find_op st p q + 1) q success1 of
                Inl err \<Rightarrow> Inl err
              | Inr (val2, success2) \<Rightarrow>
                  (case combine E (type (tok st (find_op st p q))) val1 val2 of
                     Inl err \<Rightarrow> Inl err
                   | Inr v \<Rightarrow> Inr (v, success2))))"
proof -
  from assms show "dominant st p q (find_op st p q)"
    by (rule find_op_dominant)
  from assms have "p < q"
    by (auto simp: check_parentheses_def BAD_EXPR_def NOT_SURROUND_def split: if_splits)
  moreover from assms have "\<not> fst (check_parentheses st p q)"
    and "snd (check_parentheses st p q) \<noteq> Some BAD_EXPR"
    by (simp_all add: BAD_EXPR_def NOT_SURROUND_def)
  ultimately show "eval E st p q success =
        (case (if type (tok st (find_op st p q)) \<noteq> TK_DEREFERENCE
                  \<and> type (tok st (find_op st p q)) \<noteq> TK_MINUS
               then eval E st p (find_op st p q - 1) success
               else Inr (0, success)) of
           Inl err \<Rightarrow> Inl err
         | Inr (val1, success1) \<Rightarrow>
             (case eval E st (find_op st p q + 1) q success1 of
                Inl err \<Rightarrow> Inl err
              | Inr (val2, success2) \<Rightarrow>
                  (case combine E (type (tok st (find_op st p q))) val1 val2 of
                     Inl err \<Rightarrow> Inl err
                   | Inr v \<Rightarrow> Inr (v, success2))))"
    by (rule eval_operator)
qed

text \<open>
  C4. A balanced range that no single pair of parentheses wraps is to be split at its
  dominant operator. The seven tokens of \<^verbatim>\<open>(1)+(2)\<close> are such a range: the first
  parenthesis is closed at index 2, and the dominant operator is the \<^verbatim>\<open>+\<close> at index 3,
  with the operands \<open>0..2\<close> and \<open>4..6\<close> that evaluate to 1 and 2. The evaluator does not
  split there: the balance check answers true, the evaluation is that of the range
  \<open>1..5\<close>, and the result is 0 with the flag cleared. Where the balance check answers
  that the range is not wrapped the evaluator does split at the dominant operator, as
  for \<^verbatim>\<open>1-(2+3)\<close> and \<^verbatim>\<open>1-2-3\<close>, which evaluate to \<open>0xFFFFFFFC\<close> with the flag as the
  caller set it.
\<close>

theorem eval_strips_where_it_should_split:
  "(case expr stub_env (init_state 32) ''(1)+(2)'' True of
      Inl err \<Rightarrow> False
    | Inr (st, v, success) \<Rightarrow>
        map (paren_depth st 0) [0..6] = [1, 1, 0, 0, 1, 1, 0] \<and>
        dominant st 0 6 3 \<and>
        type (tok st 3) = CH CHR ''+'' \<and>
        eval stub_env st 0 2 True = Inr (1, True) \<and>
        eval stub_env st 4 6 True = Inr (2, True) \<and>
        fst (check_parentheses st 0 6) \<and>
        eval stub_env st 0 6 True = eval stub_env st 1 5 True \<and>
        v = 0 \<and> success = False) \<and>
   (case expr stub_env (init_state 32) ''1-(2+3)'' True of
      Inl err \<Rightarrow> False
    | Inr (st, v, success) \<Rightarrow>
        check_parentheses st 0 6 = (False, Some NOT_SURROUND) \<and>
        find_op st 0 6 = 1 \<and> dominant st 0 6 1 \<and>
        v = 0xFFFFFFFC \<and> success = True) \<and>
   map_sum id snd (expr stub_env (init_state 32) ''1-2-3'' True) = Inr (0xFFFFFFFC, True)"
  by code_simp

subsection \<open>Failures and the success flag\<close>

text \<open>
  C3. A failure in one operand is to make the whole evaluation fail. In \<^verbatim>\<open>()+$pc\<close> the
  left operand \<open>0..1\<close> fails and clears the flag, the register lookup in the right
  operand sets it again, and the run returns \<open>0x1000\<close> with the flag set.
\<close>

theorem expr_failure_masked:
  "(case expr stub_env (init_state 32) ''()+$pc'' True of
      Inl err \<Rightarrow> False
    | Inr (st, v, success) \<Rightarrow>
        find_op st 0 3 = 2 \<and>
        eval stub_env st 0 1 True = Inr (0, False) \<and>
        eval stub_env st 3 3 False = Inr (0x1000, True) \<and>
        v = 0x1000 \<and> success = True)"
  by code_simp

lemma eval_division_by_zero:
  assumes "p < q" and "\<not> fst (check_parentheses st p q)"
    and "snd (check_parentheses st p q) \<noteq> Some BAD_EXPR"
    and "type (tok st (find_op st p q)) = CH CHR ''/''"
    and "eval E st p (find_op st p q - 1) success = Inr (val1, success1)"
    and "eval E st (find_op st p q + 1) q success1 = Inr (0, success2)"
  shows "eval E st p q success = Inl Panic_division_by_zero"
proof -
  from assms(4) have "combine E (type (tok st (find_op st p q))) val1 0
      = Inl Panic_division_by_zero"
    by (simp add: combine_def)
  with assms show ?thesis
    by (simp add: eval_operator)
qed

text \<open>
  C5. A division by a right operand that has evaluated to zero ends the run in the
  \<^verbatim>\<open>panic\<close>, as for \<^verbatim>\<open>1/0\<close>. The other failures are to be reported through the flag, and
  in two runs they are not. In \<^verbatim>\<open>1 2\<close> the scan picks the number at index 1, the empty
  range after it clears the flag, and the run then ends in the \<^verbatim>\<open>assert(0)\<close> of the
  switch. In \<^verbatim>\<open>$q+$pc\<close> the lookup of \<open>q\<close> reports failure, the lookup of \<open>pc\<close> sets the
  flag again, and the run returns \<open>0x1000\<close> with the flag set.
\<close>

theorem failure_not_reported:
  "expr stub_env (init_state 32) ''1/0'' True = Inl Panic_division_by_zero \<and>
   find_op (lexed ''1 2'') 0 1 = 1 \<and>
   eval stub_env (lexed ''1 2'') 2 1 True = Inr (0, False) \<and>
   expr stub_env (init_state 32) ''1 2'' True = Inl Assert_unhandled_op \<and>
   (case expr stub_env (init_state 32) ''$q+$pc'' True of
      Inl err \<Rightarrow> False
    | Inr (st, v, success) \<Rightarrow>
        find_op st 0 2 = 1 \<and>
        eval stub_env st 0 0 True = Inr (0, False) \<and>
        eval stub_env st 2 2 False = Inr (0x1000, True) \<and>
        v = 0x1000 \<and> success = True)"
  by code_simp

subsection \<open>The unary pass\<close>

lemma unary_context_check_unary:
  "unary_context ts i = (i = 0 \<or> check_unary (type (ts ! (i - 1))))"
  by (auto simp: unary_context_def check_unary_def)

lemma tokens_recognize_step:
  "i < length (tokens st) \<Longrightarrow>
   tokens (recognize_step st i) = (tokens st)[i := disambiguated (tokens st) i]"
  by (cases "i = 0")
     (auto simp: recognize_step_def reclassify_def disambiguated_def unary_context_check_unary
        OP_LV2_1_def OP_LV2_2_def)

lemma frame_recognize_step:
  "printed (recognize_step st i) = printed st"
  "length (tokens (recognize_step st i)) = length (tokens st)"
  by (simp_all add: recognize_step_def reclassify_def)

lemma recognize_unary_frame:
  "nr_token (recognize_unary st i) = nr_token st \<and>
   printed (recognize_unary st i) = printed st \<and>
   length (tokens (recognize_unary st i)) = length (tokens st)"
proof (induction st i rule: recognize_unary.induct)
  case (1 st i)
  show ?case
  proof (cases "i < nr_token st")
    case True
    with "1.IH" show ?thesis
      by (subst (1 2 3) recognize_unary.simps)
         (simp add: nr_token_recognize_step frame_recognize_step)
  next
    case False
    then show ?thesis by (subst (1 2 3) recognize_unary.simps) simp
  qed
qed

lemma recognize_unary_visited:
  "nr_token st \<le> length (tokens st) \<Longrightarrow> j < i \<or> nr_token st \<le> j \<Longrightarrow>
   tokens (recognize_unary st i) ! j = tokens st ! j"
proof (induction st i rule: recognize_unary.induct)
  case (1 st i)
  show ?case
  proof (cases "i < nr_token st")
    case True
    with "1.prems" have "tokens (recognize_unary (recognize_step st i) (i + 1)) ! j
        = tokens (recognize_step st i) ! j"
      by (intro "1.IH") (auto simp: nr_token_recognize_step frame_recognize_step)
    also from True "1.prems" have "\<dots> = tokens st ! j"
      by (auto simp: tokens_recognize_step)
    finally show ?thesis using True by (subst recognize_unary.simps) simp
  next
    case False
    then show ?thesis by (subst recognize_unary.simps) simp
  qed
qed

lemma check_unary_disambiguated:
  "check_unary (type (disambiguated ts i)) = check_unary (type (ts ! i))"
  by (auto simp: disambiguated_def check_unary_def)

lemma recognize_unary_pending:
  "nr_token st \<le> length (tokens st) \<Longrightarrow> i \<le> j \<Longrightarrow> j < nr_token st \<Longrightarrow>
   \<forall>k\<ge>i. tokens st ! k = ts ! k \<Longrightarrow>
   i = 0 \<or> check_unary (type (tokens st ! (i - 1))) = check_unary (type (ts ! (i - 1))) \<Longrightarrow>
   tokens (recognize_unary st i) ! j = disambiguated ts j"
proof (induction st i rule: recognize_unary.induct)
  case (1 st i)
  from "1.prems" have lt: "i < nr_token st" and len: "i < length (tokens st)"
    by simp_all
  have here: "disambiguated (tokens st) i = disambiguated ts i"
    using "1.prems"(4,5)
    by (cases "i = 0") (auto simp: disambiguated_def unary_context_check_unary)
  have step: "tokens (recognize_step st i) = (tokens st)[i := disambiguated ts i]"
    using len here by (simp add: tokens_recognize_step)
  have unfold: "recognize_unary st i = recognize_unary (recognize_step st i) (i + 1)"
    using lt by (subst recognize_unary.simps) simp
  show ?case
  proof (cases "j = i")
    case True
    have "tokens (recognize_unary (recognize_step st i) (i + 1)) ! i
        = tokens (recognize_step st i) ! i"
      using "1.prems"(1)
      by (intro recognize_unary_visited)
         (simp_all add: nr_token_recognize_step frame_recognize_step)
    with True step len unfold show ?thesis by simp
  next
    case False
    with "1.prems" have "i + 1 \<le> j" by simp
    moreover have "\<forall>k\<ge>i + 1. tokens (recognize_step st i) ! k = ts ! k"
      using "1.prems"(4) step by simp
    moreover have "check_unary (type (tokens (recognize_step st i) ! (i + 1 - 1)))
        = check_unary (type (ts ! (i + 1 - 1)))"
      using step len by (simp add: check_unary_disambiguated)
    ultimately have "tokens (recognize_unary (recognize_step st i) (i + 1)) ! j
        = disambiguated ts j"
      using "1.prems"(1,3) lt
      by (intro "1.IH") (simp_all add: nr_token_recognize_step frame_recognize_step)
    with unfold show ?thesis by simp
  qed
qed

lemma nr_token_record_token:
  "record_token st ty src n = Inr st' \<Longrightarrow> nr_token st \<le> length (tokens st) \<Longrightarrow>
   nr_token st' \<le> length (tokens st')"
  by (auto simp: record_token_def put_token_def put_token_str_def
      split: if_splits option.splits)

lemma nr_token_make_token_loop:
  "make_token_loop st position e = Inr (st', ok) \<Longrightarrow> nr_token st \<le> length (tokens st) \<Longrightarrow>
   nr_token st' \<le> length (tokens st')"
proof (induction st position e rule: make_token_loop.induct)
  case (1 st position e)
  show ?case
  proof (cases "position < length e")
    case False
    with "1.prems" show ?thesis
      by (subst (asm) make_token_loop.simps) simp
  next
    case lt: True
    show ?thesis
    proof (cases "try_rules rules (drop position e)")
      case None
      with lt "1.prems" show ?thesis
        by (subst (asm) make_token_loop.simps) auto
    next
      case (Some m)
      obtain ty len where m: "m = (ty, len)" by (cases m)
      from "1.prems"(1) lt Some m obtain st1 where
        rec: "record_token st ty (drop position e) len = Inr st1"
        and rest: "make_token_loop st1 (position + len) e = Inr (st', ok)"
        by (subst (asm) make_token_loop.simps) (simp split: sum.splits)
      from rec "1.prems"(2) have "nr_token st1 \<le> length (tokens st1)"
        by (rule nr_token_record_token)
      with "1.IH" [OF lt Some [unfolded m] refl rec rest] show ?thesis .
    qed
  qed
qed

lemma nr_token_make_token:
  "make_token st e = Inr (st', ok) \<Longrightarrow> nr_token st' \<le> length (tokens st')"
  unfolding make_token_def by (erule nr_token_make_token_loop) simp

text \<open>
  C6. For a state whose token count is within the array, as \<^verbatim>\<open>make_token\<close> leaves it,
  the pass leaves at every index below the count the token that the specification's rule gives for the sequence as the
  tokenizer left it: \<^verbatim>\<open>*\<close> in unary context becomes \<^verbatim>\<open>TK_DEREFERENCE\<close> with level 22,
  \<^verbatim>\<open>-\<close> in unary context becomes \<^verbatim>\<open>TK_MINUS\<close> with level 21, every other token is the
  same; the tokens beyond the count, the count and the printed events are unchanged.
  The pass from index \<open>i\<close> on changes no token below \<open>i\<close>.
\<close>

theorem recognize_unary_disambiguates:
  assumes "nr_token st \<le> length (tokens st)"
  shows "tokens (recognize_unary st 0)
           = map (disambiguated (tokens st)) [0..<nr_token st] @ drop (nr_token st) (tokens st)
       \<and> nr_token (recognize_unary st 0) = nr_token st
       \<and> printed (recognize_unary st 0) = printed st
       \<and> (\<forall>i j. j < i \<longrightarrow> tokens (recognize_unary st i) ! j = tokens st ! j)"
proof -
  have "tokens (recognize_unary st 0)
      = map (disambiguated (tokens st)) [0..<nr_token st] @ drop (nr_token st) (tokens st)"
  proof (rule nth_equalityI)
    show "length (tokens (recognize_unary st 0))
        = length (map (disambiguated (tokens st)) [0..<nr_token st]
            @ drop (nr_token st) (tokens st))"
      using assms by (simp add: recognize_unary_frame)
  next
    fix j
    assume "j < length (tokens (recognize_unary st 0))"
    then have j: "j < length (tokens st)" by (simp add: recognize_unary_frame)
    show "tokens (recognize_unary st 0) ! j
        = (map (disambiguated (tokens st)) [0..<nr_token st]
            @ drop (nr_token st) (tokens st)) ! j"
    proof (cases "j < nr_token st")
      case True
      with assms have "tokens (recognize_unary st 0) ! j = disambiguated (tokens st) j"
        by (intro recognize_unary_pending) simp_all
      with True show ?thesis by (simp add: nth_append)
    next
      case False
      with assms have "tokens (recognize_unary st 0) ! j = tokens st ! j"
        by (intro recognize_unary_visited) simp_all
      with False j assms show ?thesis by (simp add: nth_append)
    qed
  qed
  with assms show ?thesis
    by (simp add: recognize_unary_frame recognize_unary_visited)
qed

theorem recognize_unary_disambiguates_witness:
  "map type (take 5 (tokens (recognize_unary (lexed ''-*1*2'') 0)))
     = [TK_MINUS, TK_DEREFERENCE, TK_NUMBER, CH CHR ''*'', TK_NUMBER]
   \<and> map precedence (take 5 (tokens (recognize_unary (lexed ''-*1*2'') 0)))
     = [21, 22, 0, 30, 0]"
proof -
  have "nr_token (lexed ''-*1*2'') \<le> length (tokens (lexed ''-*1*2''))"
    by code_simp
  from recognize_unary_disambiguates [OF this]
  have "tokens (recognize_unary (lexed ''-*1*2'') 0)
      = map (disambiguated (tokens (lexed ''-*1*2''))) [0..<nr_token (lexed ''-*1*2'')]
        @ drop (nr_token (lexed ''-*1*2'')) (tokens (lexed ''-*1*2''))"
    by simp
  moreover have "map type (take 5
       (map (disambiguated (tokens (lexed ''-*1*2''))) [0..<nr_token (lexed ''-*1*2'')]
        @ drop (nr_token (lexed ''-*1*2'')) (tokens (lexed ''-*1*2''))))
     = [TK_MINUS, TK_DEREFERENCE, TK_NUMBER, CH CHR ''*'', TK_NUMBER]"
    by code_simp
  moreover have "map precedence (take 5
       (map (disambiguated (tokens (lexed ''-*1*2''))) [0..<nr_token (lexed ''-*1*2'')]
        @ drop (nr_token (lexed ''-*1*2'')) (tokens (lexed ''-*1*2''))))
     = [21, 22, 0, 30, 0]"
    by code_simp
  ultimately show ?thesis by simp
qed

subsection \<open>Token texts\<close>

text \<open>
  C7. The result of a call is to be independent of earlier calls. After \<^verbatim>\<open>12345\<close> has
  been evaluated, \<^verbatim>\<open>7\<close> evaluates to 72345: the text of the earlier token at
  index 0 is still in the array behind the one character that was copied. From the
  initial state \<^verbatim>\<open>7\<close> evaluates to 7.
\<close>

theorem expr_depends_on_earlier_call:
  "(case expr stub_env (init_state 32) ''12345'' True of
      Inl err \<Rightarrow> False
    | Inr (st, v, success) \<Rightarrow>
        v = 12345 \<and>
        map_sum id snd (expr stub_env st ''7'' True) = Inr (72345, True)) \<and>
   map_sum id snd (expr stub_env (init_state 32) ''7'' True) = Inr (7, True)"
  by code_simp















lemma longest_match_dead_seq:
  "longest_match (Seq Nomatch r) s n best = best"
  by (induction s arbitrary: n) simp_all

lemma longest_match_dead_alt:
  "longest_match (Alt Nomatch (Seq Nomatch r)) s n best = best"
  by (induction s arbitrary: n) simp_all

lemma regexec_hex_rule:
  "regexec (Seq (Lit CHR ''0'') (Seq (Cls ''xX'') (Plus (Cls hexdigits)))) s = Some n \<Longrightarrow>
   s \<noteq> [] \<and> hd s \<in> set digits"
  by (cases s) (auto simp: regexec_def longest_match_dead_seq digits_def split: if_splits)

lemma regexec_dec_rule:
  "regexec (Alt (Lit CHR ''0'') (Seq (Cls ''123456789'') (Star (Cls digits)))) s = Some n \<Longrightarrow>
   s \<noteq> [] \<and> hd s \<in> set digits"
  by (cases s) (auto simp: regexec_def longest_match_dead_alt digits_def split: if_splits)

lemma TK_NUMBER_neq [simp]:
  "TK_NOTYPE \<noteq> TK_NUMBER" "TK_NOTEQ \<noteq> TK_NUMBER" "TK_AND \<noteq> TK_NUMBER"
  "TK_OR \<noteq> TK_NUMBER" "TK_EQ \<noteq> TK_NUMBER"
  "TK_NUMBER \<noteq> TK_NOTYPE" "TK_NUMBER \<noteq> TK_NOTEQ" "TK_NUMBER \<noteq> TK_AND"
  "TK_NUMBER \<noteq> TK_OR" "TK_NUMBER \<noteq> TK_EQ"
  by (simp_all add: TK_NOTYPE_def TK_NOTEQ_def TK_AND_def TK_OR_def TK_EQ_def TK_NUMBER_def)

lemma try_rules_number:
  assumes "try_rules rules s = Some (TK_NUMBER, n)"
  shows "s \<noteq> [] \<and> hd s \<in> set digits"
  using assms regexec_hex_rule [of s] regexec_dec_rule [of s]
  by (auto simp: rules_def split: option.splits)


lemma number_texts_iff:
  "number_texts st \<longleftrightarrow>
     (\<forall>t\<in>set (tokens st). type t = TK_NUMBER \<longrightarrow> str t \<noteq> [] \<and> hd (str t) \<in> set digits)"
  by (auto simp: number_texts_def list_all_iff)

lemma number_texts_update:
  assumes "number_texts st"
    and "type t' = TK_NUMBER \<Longrightarrow> str t' \<noteq> [] \<and> hd (str t') \<in> set digits"
  shows "number_texts (st\<lparr>tokens := (tokens st)[i := t'], nr_token := k\<rparr>)"
  using assms unfolding number_texts_def list_all_iff
  by (auto dest!: set_update_subset_insert [THEN subsetD])

lemma strncpy_hd:
  "strncpy dest src n = Some s' \<Longrightarrow> 0 < n \<Longrightarrow> src \<noteq> [] \<Longrightarrow> s' \<noteq> [] \<and> hd s' = hd src"
  by (cases src) (auto simp: strncpy_def split: if_splits)

lemma number_texts_put_token:
  "put_token st ty lv = Inr st' \<Longrightarrow> ty \<noteq> TK_NUMBER \<Longrightarrow> number_texts st \<Longrightarrow>
   number_texts st'"
  by (auto simp: put_token_def split: if_splits intro!: number_texts_update)

lemma number_texts_put_token_str:
  "put_token_str st ty src n lv = Inr st' \<Longrightarrow> number_texts st \<Longrightarrow>
   ty = TK_NUMBER \<longrightarrow> 0 < n \<and> src \<noteq> [] \<and> hd src \<in> set digits \<Longrightarrow>
   number_texts st'"
  by (auto simp: put_token_str_def split: if_splits option.splits
      intro!: number_texts_update dest: strncpy_hd)

lemma number_texts_record_token:
  assumes "record_token st ty src n = Inr st'" and "number_texts st"
    and "ty = TK_NUMBER \<longrightarrow> 0 < n \<and> src \<noteq> [] \<and> hd src \<in> set digits"
  shows "number_texts st'"
  using assms
  by (auto simp: record_token_def split: if_splits
      elim: number_texts_put_token number_texts_put_token_str)

lemma number_texts_make_token_loop:
  "make_token_loop st position e = Inr (st', ok) \<Longrightarrow> number_texts st \<Longrightarrow> number_texts st'"
proof (induction st position e rule: make_token_loop.induct)
  case (1 st position e)
  show ?case
  proof (cases "position < length e")
    case False
    with "1.prems" show ?thesis
      by (subst (asm) make_token_loop.simps) simp
  next
    case lt: True
    show ?thesis
    proof (cases "try_rules rules (drop position e)")
      case None
      with lt "1.prems" show ?thesis
        by (subst (asm) make_token_loop.simps) (auto simp: number_texts_iff)
    next
      case (Some m)
      obtain ty len where m: "m = (ty, len)" by (cases m)
      from "1.prems"(1) lt Some m obtain st1 where
        rec: "record_token st ty (drop position e) len = Inr st1"
        and rest: "make_token_loop st1 (position + len) e = Inr (st', ok)"
        by (subst (asm) make_token_loop.simps) (simp split: sum.splits)
      from Some m have "ty = TK_NUMBER \<longrightarrow>
          0 < len \<and> drop position e \<noteq> [] \<and> hd (drop position e) \<in> set digits"
        using try_rules_number [of "drop position e" len]
          try_rules_rules_pos [of "drop position e" ty len]
        by auto
      with rec "1.prems"(2) have "number_texts st1"
        by (rule number_texts_record_token)
      with "1.IH" [OF lt Some [unfolded m] refl rec rest] show ?thesis .
    qed
  qed
qed

lemma number_texts_recognize_step:
  "number_texts st \<Longrightarrow> number_texts (recognize_step st i)"
  unfolding number_texts_def list_all_iff recognize_step_def reclassify_def
  by (auto dest!: set_update_subset_insert [THEN subsetD])

lemma number_texts_recognize_unary:
  "number_texts st \<Longrightarrow> number_texts (recognize_unary st i)"
proof (induction st i rule: recognize_unary.induct)
  case (1 st i)
  then show ?case
    by (subst recognize_unary.simps) (simp add: number_texts_recognize_step)
qed

lemma number_texts_init: "number_texts (init_state n)"
  by (simp add: number_texts_iff init_state_def zero_token_def TK_NUMBER_def)

lemma number_texts_expr:
  assumes "expr E st e success = Inr (st', v, success')" and "number_texts st"
  shows "number_texts st'"
proof -
  from assms(2) have start: "number_texts (st\<lparr>nr_token := 0\<rparr>)"
    by (simp add: number_texts_def)
  from assms(1) obtain st1 ok where mk: "make_token st e = Inr (st1, ok)"
    and st': "st' = st1 \<or> st' = recognize_unary st1 0"
    by (cases "make_token st e") (auto simp: expr_def split: if_splits sum.splits)
  from mk start have "number_texts st1"
    unfolding make_token_def by (rule number_texts_make_token_loop)
  with st' show ?thesis
    by (auto simp: number_texts_recognize_unary)
qed




subsection \<open>Tokenizer failures\<close>

lemma make_token_loop_stuck:
  "position < length e \<Longrightarrow> try_rules rules (drop position e) = None \<Longrightarrow>
   make_token_loop st position e
     = Inr (st\<lparr>printed := printed st @ [No_match position e]\<rparr>, False)"
  by (subst make_token_loop.simps) simp

lemma printed_record_token:
  "record_token st ty s n = Inr st' \<Longrightarrow> printed st' = printed st"
  by (auto simp: record_token_def put_token_def put_token_str_def
      split: if_splits option.splits)

lemma make_token_loop_false:
  "make_token_loop st position e = Inr (st', False) \<Longrightarrow>
   \<exists>k\<ge>position. k < length e \<and> try_rules rules (drop k e) = None
      \<and> printed st' = printed st @ [No_match k e]"
proof (induction st position e rule: make_token_loop.induct)
  case (1 st position e)
  from "1.prems" have lt: "position < length e"
    by (subst (asm) make_token_loop.simps) (simp split: if_splits)
  show ?case
  proof (cases "try_rules rules (drop position e)")
    case None
    with lt "1.prems" show ?thesis
      by (auto simp: make_token_loop_stuck)
  next
    case (Some m)
    obtain ty len where m: "m = (ty, len)" by (cases m)
    from "1.prems" lt Some m obtain st1 where
      rec: "record_token st ty (drop position e) len = Inr st1"
      and rest: "make_token_loop st1 (position + len) e = Inr (st', False)"
      by (subst (asm) make_token_loop.simps) (simp split: sum.splits)
    from "1.IH" [OF lt Some [unfolded m] refl rec rest] printed_record_token [OF rec]
    show ?thesis by auto
  qed
qed

text \<open>
  C9. When the scan stands at a position before the end of the expression where no rule
  matches, the loop stops there: it prints the position and the expression and returns
  false in the state it has reached. When \<^verbatim>\<open>make_token\<close> reaches such a position,
  \<^verbatim>\<open>expr\<close> returns normally with the value 0 and the flag cleared, and the evaluator is
  not run. \<^verbatim>\<open>make_token\<close> returns false in no other way.
\<close>

theorem lexical_failure_reported:
  "(position < length e \<and> try_rules rules (drop position e) = None
    \<longrightarrow> make_token_loop st position e
          = Inr (st\<lparr>printed := printed st @ [No_match position e]\<rparr>, False)) \<and>
   (make_token st0 e = make_token_loop st position e
      \<and> position < length e \<and> try_rules rules (drop position e) = None
    \<longrightarrow> expr E st0 e success
          = Inr (st\<lparr>printed := printed st @ [No_match position e]\<rparr>, 0, False)) \<and>
   (make_token st0 e = Inr (st', False)
    \<longrightarrow> expr E st0 e success = Inr (st', 0, False)
        \<and> (\<exists>k<length e. try_rules rules (drop k e) = None
              \<and> printed st' = printed st0 @ [No_match k e]))"
proof (intro conjI impI)
  assume "make_token st0 e = Inr (st', False)"
  then have "make_token_loop (st0\<lparr>nr_token := 0\<rparr>) 0 e = Inr (st', False)"
    by (simp add: make_token_def)
  from make_token_loop_false [OF this]
  show "\<exists>k<length e. try_rules rules (drop k e) = None
      \<and> printed st' = printed st0 @ [No_match k e]"
    by auto
qed (simp_all add: make_token_loop_stuck expr_def)

theorem lexical_failure_reported_witness:
  "make_token_loop (lexed ''1+'') 2 ''1+#''
     = Inr ((lexed ''1+'')\<lparr>printed := [No_match 2 ''1+#'']\<rparr>, False) \<and>
   expr stub_env (init_state 32) ''1+#'' True
     = Inr ((lexed ''1+'')\<lparr>printed := [No_match 2 ''1+#'']\<rparr>, 0, False) \<and>
   (\<exists>k<length ''1+#''. try_rules rules (drop k ''1+#'') = None
      \<and> printed ((lexed ''1+'')\<lparr>printed := [No_match 2 ''1+#'']\<rparr>)
          = printed (init_state 32) @ [No_match k ''1+#''])"
proof -
  have h: "make_token (init_state 32) ''1+#'' = make_token_loop (lexed ''1+'') 2 ''1+#''
      \<and> 2 < length ''1+#'' \<and> try_rules rules (drop 2 ''1+#'') = None
      \<and> printed (lexed ''1+'') = []"
    by code_simp
  note inst = lexical_failure_reported [where position = 2 and e = "''1+#''"
      and st = "lexed ''1+''" and ?st0.0 = "init_state 32" and E = stub_env and success = True
      and st' = "(lexed ''1+'')\<lparr>printed := [No_match 2 ''1+#'']\<rparr>"]
  from h inst
  have stuck: "make_token_loop (lexed ''1+'') 2 ''1+#''
      = Inr ((lexed ''1+'')\<lparr>printed := [No_match 2 ''1+#'']\<rparr>, False)"
    by simp
  from h inst
  have run: "expr stub_env (init_state 32) ''1+#'' True
      = Inr ((lexed ''1+'')\<lparr>printed := [No_match 2 ''1+#'']\<rparr>, 0, False)"
    by simp
  from h stuck have "make_token (init_state 32) ''1+#''
      = Inr ((lexed ''1+'')\<lparr>printed := [No_match 2 ''1+#'']\<rparr>, False)"
    by simp
  with inst
  have "\<exists>k<length ''1+#''. try_rules rules (drop k ''1+#'') = None
      \<and> printed ((lexed ''1+'')\<lparr>printed := [No_match 2 ''1+#'']\<rparr>)
          = printed (init_state 32) @ [No_match k ''1+#'']"
    by blast
  with stuck run show ?thesis by blast
qed

subsection \<open>The flag is cleared on failure paths only\<close>










end
